theory Spec2Isabelle
  imports Main
begin

section \<open>The Zephyr auto-PTS client: data\<close>

text \<open>
  The entry point \<^verbatim>\<open>autoptsclient-zephyr.py\<close> parses the command line, checks it,
  connects to one PTS automation server per IP address, initialises the IUT and the
  stack, collects the test cases of the profiles and hands them to
  \<^verbatim>\<open>autoptsclient.run_test_cases\<close>. Everything it calls lives in other modules; the
  model records each such call, in order, and lets the environment decide whether the
  call raises.
\<close>

text \<open>
  The text given to \<^verbatim>\<open>sys.exit\<close>. The source formats it with \<^verbatim>\<open>%\<close> and \<^verbatim>\<open>repr\<close>;
  the constructor keeps which message it is and the path it is about. \<open>OtherText\<close> is
  for what a called module may give to \<^verbatim>\<open>sys.exit\<close>.
\<close>

datatype message =
    RunAsRoot
  | NoServerIp
  | NotATty string
  | TtyMissing string
  | QemuMissing string
  | KernelNotFile string
  | OtherText string

text \<open>
  The argument of \<^verbatim>\<open>SystemExit\<close>: a message (\<^verbatim>\<open>sys.exit("...")\<close>, printed on stderr,
  status 1), a status (\<^verbatim>\<open>argparse\<close> exits with 2 on a usage error) or \<^verbatim>\<open>None\<close>
  (status 0).
\<close>

datatype exit_arg = ExitMsg message | ExitCode int | ExitNone

text \<open>
  The three classes of exception the \<^verbatim>\<open>__main__\<close> guard tells apart;
  \<open>OtherException\<close> is any other \<^verbatim>\<open>BaseException\<close>, with the name of its class.
  (The file is Python 2, where an instance of an old-style class can be raised too and is
  no \<^verbatim>\<open>BaseException\<close>; neither the interpreter nor the standard library raises one,
  and the model has none.)
\<close>

datatype exn = KeyboardInterrupt | SystemExit exit_arg | OtherException string

text \<open>A test case object (opaque here: its project and its name).\<close>

datatype test_case = TestCase (project: string) (tc_name: string)

text \<open>
  The proxy object \<^verbatim>\<open>init_pts\<close> returns, identified by the IP address of the server it
  is connected to.
\<close>

datatype pts = PTS (server: string)

text \<open>
  The calls \<^verbatim>\<open>main\<close> makes into other modules, with their arguments
  (\<^verbatim>\<open>callback_thread\<close>, the one object \<^verbatim>\<open>init_core\<close> returns, is left out of them):
  \<open>InitPts ip workspace bd_addr enable_max_logs tc_db_table_name local_addr\<close>,
  \<open>IutctlInit kernel_image tty_file board\<close>,
  \<open>GetTestCasesSubset test_cases included excluded\<close> and
  \<open>RunTestCases ptses test_cases additional_test_cases retry\<close> have their arguments in
  the order of the source. \<open>PrintBye\<close> is the \<^verbatim>\<open>print\<close> statement.
\<close>

datatype call =
    InitCore
  | InitPts string string "string option" bool "string option" "string option"
  | BtpInit
  | IutctlInit string "string option" "string option"
  | InitStack
  | GetStack
  | SynchInit
  | GapTestCases pts
  | GattTestCases pts
  | SmTestCases pts
  | L2capTestCases pts
  | MeshTestCases "pts list"
  | GetTestCasesSubset "test_case list" "string list option" "string list option"
  | RunTestCases "pts list" "test_case list" "test_case list" int
  | IutctlCleanup
  | PrintBye
  | StdoutFlush
  | UnregisterXmlrpcPtscallback pts

text \<open>
  The environment of the process. \<open>'w\<close> is the state of everything outside this file
  (servers, IUT, callback thread); \<open>perform\<close> says what a call does to it and whether the
  call raises. \<^verbatim>\<open>KeyboardInterrupt\<close> is modelled where it comes out of a call; one that
  arrives while the statements of this file run, and a call that never returns, are not
  modelled. What the called functions return is a function of their
  arguments.
  \<open>QEMU_BIN\<close> and \<open>board_names\<close> are \<^verbatim>\<open>autoprojects.iutctl.QEMU_BIN\<close> and
  \<^verbatim>\<open>autoprojects.iutctl.Board.names\<close>; \<open>find_executable\<close> is whether
  \<^verbatim>\<open>distutils.spawn.find_executable\<close> returns a path; \<open>int_of_str\<close> is the built-in
  \<^verbatim>\<open>int\<close> on a string, \<open>None\<close> where it raises \<^verbatim>\<open>ValueError\<close>.
\<close>

record 'w world =
  euid :: nat
  QEMU_BIN :: string
  board_names :: "string list"
  path_exists :: "string \<Rightarrow> bool"
  path_isfile :: "string \<Rightarrow> bool"
  find_executable :: "string \<Rightarrow> bool"
  int_of_str :: "string \<Rightarrow> int option"
  gap_test_cases :: "pts \<Rightarrow> test_case list"
  gatt_test_cases :: "pts \<Rightarrow> test_case list"
  sm_test_cases :: "pts \<Rightarrow> test_case list"
  l2cap_test_cases :: "pts \<Rightarrow> test_case list"
  mesh_test_cases :: "pts list \<Rightarrow> test_case list \<times> test_case list"
  get_test_cases_subset ::
    "test_case list \<Rightarrow> string list option \<Rightarrow> string list option \<Rightarrow> test_case list"
  perform :: "call \<Rightarrow> 'w \<Rightarrow> exn option \<times> 'w"

text \<open>
  What \<^verbatim>\<open>argparse\<close> finds on a command line without \<^verbatim>\<open>-h\<close> and without unknown
  options: the raw text of each option (\<open>None\<close> when the option is absent) and of the two
  positional arguments (\<open>None\<close> when missing).
\<close>

record cmdline =
  opt_ip_addr :: "string list option"
  opt_local_addr :: "string option"
  arg_workspace :: "string option"
  arg_kernel_image :: "string option"
  opt_tty_file :: "string option"
  opt_bd_addr :: "string option"
  opt_debug_logs :: bool
  opt_board :: "string option"
  opt_test_cases :: "string list option"
  opt_excluded :: "string list option"
  opt_retry :: "string option"
  opt_store :: bool

text \<open>The \<^verbatim>\<open>Namespace\<close> that \<^verbatim>\<open>arg_parser.parse_args()\<close> returns.\<close>

record args =
  ip_addr :: "string list option"
  local_addr :: "string option"
  workspace :: string
  kernel_image :: string
  tty_file :: "string option"
  bd_addr :: "string option"
  enable_max_logs :: bool
  board :: "string option"
  test_cases :: "string list option"
  excluded :: "string list option"
  retry :: int
  store :: bool

section \<open>Python values\<close>

text \<open>Truth value of \<^verbatim>\<open>None\<close>, a string or a list: \<^verbatim>\<open>None\<close> and the empty one are false.\<close>

definition truthy :: "'a list option \<Rightarrow> bool" where
  "truthy x = (case x of None \<Rightarrow> False | Some v \<Rightarrow> v \<noteq> [])"

definition startswith :: "string \<Rightarrow> string \<Rightarrow> bool" where
  "startswith s p = (take (length p) s = p)"

text \<open>
  \<^verbatim>\<open>int(s)\<close> on the plain decimal texts: white space around, an optional sign, at
  least one decimal digit; \<open>None\<close> is \<^verbatim>\<open>ValueError\<close>. The example worlds take it for
  their \<open>int_of_str\<close>; the theorems hold for any.
\<close>

definition is_space :: "char \<Rightarrow> bool" where
  "is_space c = (of_char c \<in> {9, 10, 11, 12, 13, 32 :: nat})"

definition strip :: "string \<Rightarrow> string" where
  "strip s = rev (dropWhile is_space (rev (dropWhile is_space s)))"

definition digit_val :: "char \<Rightarrow> nat option" where
  "digit_val c = (let n = (of_char c :: nat) in if 48 \<le> n \<and> n \<le> 57 then Some (n - 48) else None)"

fun digits :: "string \<Rightarrow> nat \<Rightarrow> nat option" where
  "digits [] acc = Some acc"
| "digits (c # cs) acc =
     (case digit_val c of None \<Rightarrow> None | Some d \<Rightarrow> digits cs (10 * acc + d))"

definition py_int :: "string \<Rightarrow> int option" where
  "py_int s =
     (case strip s of
        [] \<Rightarrow> None
      | c # r \<Rightarrow>
          if c = CHR ''-'' then (if r = [] then None else map_option (\<lambda>n. - int n) (digits r 0))
          else if c = CHR ''+'' then (if r = [] then None else map_option int (digits r 0))
          else map_option int (digits (c # r) 0))"

section \<open>Programs: state, exceptions, calls\<close>

text \<open>
  A program runs on the list of calls made so far and the state of the outside world; it
  returns a value or raises.
\<close>

type_synonym 'w st = "call list \<times> 'w"

type_synonym ('w, 'a) prog = "'w st \<Rightarrow> (exn + 'a) \<times> 'w st"

definition ret :: "'a \<Rightarrow> ('w, 'a) prog" where
  "ret x s = (Inr x, s)"

definition raise :: "exn \<Rightarrow> ('w, 'a) prog" where
  "raise e s = (Inl e, s)"

definition bnd :: "('w, 'a) prog \<Rightarrow> ('a \<Rightarrow> ('w, 'b) prog) \<Rightarrow> ('w, 'b) prog" where
  "bnd m f s = (case m s of (Inl e, s') \<Rightarrow> (Inl e, s') | (Inr x, s') \<Rightarrow> f x s')"

text \<open>The result of a function that touches nothing outside: returned or raised.\<close>

definition lift :: "exn + 'a \<Rightarrow> ('w, 'a) prog" where
  "lift r s = (r, s)"

text \<open>A call into another module: recorded, then it returns or raises as the world says.\<close>

definition ext :: "'w world \<Rightarrow> call \<Rightarrow> ('w, unit) prog" where
  "ext w c s =
     (case perform w c (snd s) of
        (None, \<sigma>) \<Rightarrow> (Inr (), (fst s @ [c], \<sigma>))
      | (Some e, \<sigma>) \<Rightarrow> (Inl e, (fst s @ [c], \<sigma>)))"

section \<open>The source\<close>

subsection \<open>\<^verbatim>\<open>check_args\<close>\<close>

definition sys_exit :: "message \<Rightarrow> exn + 'a" where
  "sys_exit m = Inl (SystemExit (ExitMsg m))"

definition check_args :: "'w world \<Rightarrow> args \<Rightarrow> exn + unit" where
  "check_args w a =
     (if \<not> truthy (ip_addr a) then sys_exit NoServerIp
      else
        (case
           (if truthy (tty_file a) then
              (case tty_file a of
                 None \<Rightarrow> Inr ()
               | Some t \<Rightarrow>
                   if \<not> startswith t ''/dev/tty'' \<and> \<not> startswith t ''/dev/pts''
                   then sys_exit (NotATty t)
                   else if \<not> path_exists w t then sys_exit (TtyMissing t)
                   else Inr ())
            else if \<not> find_executable w (QEMU_BIN w) then sys_exit (QemuMissing (QEMU_BIN w))
            else Inr ())
         of
           Inl e \<Rightarrow> Inl e
         | Inr u \<Rightarrow>
             if \<not> path_isfile w (kernel_image a) then sys_exit (KernelNotFile (kernel_image a))
             else Inr ()))"

subsection \<open>\<^verbatim>\<open>parse_args\<close>\<close>

text \<open>
  \<^verbatim>\<open>arg_parser.parse_args()\<close> with the arguments the source declares: both positional
  arguments are required, \<^verbatim>\<open>nargs="+"\<close> wants at least one value, \<^verbatim>\<open>--board\<close> has
  \<^verbatim>\<open>choices\<close>, \<^verbatim>\<open>--retry\<close> has \<^verbatim>\<open>type=int, default=0\<close>. A usage error is
  \<^verbatim>\<open>SystemExit(2)\<close>.
\<close>

definition usage_error :: "exn + 'a" where
  "usage_error = Inl (SystemExit (ExitCode 2))"

definition arg_parser :: "'w world \<Rightarrow> cmdline \<Rightarrow> exn + args" where
  "arg_parser w c =
     (case (arg_workspace c, arg_kernel_image c) of
        (Some ws, Some ki) \<Rightarrow>
          if opt_ip_addr c = Some [] \<or> opt_test_cases c = Some [] \<or> opt_excluded c = Some []
          then usage_error
          else if (case opt_board c of None \<Rightarrow> False | Some b \<Rightarrow> b \<notin> set (board_names w))
          then usage_error
          else
            (case (case opt_retry c of None \<Rightarrow> Some 0 | Some r \<Rightarrow> int_of_str w r) of
               None \<Rightarrow> usage_error
             | Some n \<Rightarrow>
                 Inr \<lparr> ip_addr = opt_ip_addr c, local_addr = opt_local_addr c,
                       workspace = ws, kernel_image = ki,
                       tty_file = opt_tty_file c, bd_addr = opt_bd_addr c,
                       enable_max_logs = opt_debug_logs c, board = opt_board c,
                       test_cases = opt_test_cases c, excluded = opt_excluded c,
                       retry = n, store = opt_store c \<rparr>)
      | _ \<Rightarrow> usage_error)"

definition parse_args :: "'w world \<Rightarrow> cmdline \<Rightarrow> exn + args" where
  "parse_args w c =
     (case arg_parser w c of
        Inl e \<Rightarrow> Inl e
      | Inr a \<Rightarrow> (case check_args w a of Inl e \<Rightarrow> Inl e | Inr u \<Rightarrow> Inr a))"

subsection \<open>\<^verbatim>\<open>main\<close>\<close>

definition tc_db_table_name :: "args \<Rightarrow> string option" where
  "tc_db_table_name a =
     (if store a then Some (''zephyr_'' @ (case board a of None \<Rightarrow> ''None'' | Some b \<Rightarrow> b))
      else None)"

text \<open>The loop \<^verbatim>\<open>for ip in args.ip_addr: ptses.append(init_pts(ip, ...))\<close>.\<close>

fun init_ptses :: "'w world \<Rightarrow> args \<Rightarrow> string list \<Rightarrow> pts list \<Rightarrow> ('w, pts list) prog" where
  "init_ptses w a [] ptses = ret ptses"
| "init_ptses w a (ip # ips) ptses =
     bnd (ext w (InitPts ip (workspace a) (bd_addr a) (enable_max_logs a)
                   (tc_db_table_name a) (local_addr a)))
       (\<lambda>_. init_ptses w a ips (ptses @ [PTS ip]))"

text \<open>The loop \<^verbatim>\<open>for pts in ptses: pts.unregister_xmlrpc_ptscallback()\<close>.\<close>

fun unregister_all :: "'w world \<Rightarrow> pts list \<Rightarrow> ('w, unit) prog" where
  "unregister_all w [] = ret ()"
| "unregister_all w (p # ps) =
     bnd (ext w (UnregisterXmlrpcPtscallback p)) (\<lambda>_. unregister_all w ps)"

text \<open>
  \<^verbatim>\<open>main\<close>. It ends in \<^verbatim>\<open>os._exit(0)\<close>, which does not return: the value of the program
  is the status given to \<^verbatim>\<open>os._exit\<close>. \<^verbatim>\<open>ptses[0]\<close> on an empty list is
  \<^verbatim>\<open>IndexError\<close>, iterating over \<^verbatim>\<open>None\<close> is \<^verbatim>\<open>TypeError\<close>.
\<close>

definition main :: "'w world \<Rightarrow> cmdline \<Rightarrow> ('w, int) prog" where
  "main w c =
     (if euid w = 0 then raise (SystemExit (ExitMsg RunAsRoot))
      else
        bnd (lift (parse_args w c)) (\<lambda>a.
        bnd (ext w InitCore) (\<lambda>_.
        bnd (case ip_addr a of
               None \<Rightarrow> raise (OtherException ''TypeError'')
             | Some ips \<Rightarrow> init_ptses w a ips []) (\<lambda>ptses.
        bnd (ext w BtpInit) (\<lambda>_.
        bnd (ext w (IutctlInit (kernel_image a) (tty_file a) (board a))) (\<lambda>_.
        bnd (ext w InitStack) (\<lambda>_.
        bnd (ext w GetStack) (\<lambda>_.
        bnd (ext w SynchInit) (\<lambda>_.
        bnd (case ptses of
               [] \<Rightarrow> raise (OtherException ''IndexError'')
             | p0 # _ \<Rightarrow>
                 bnd (ext w (GapTestCases p0)) (\<lambda>_.
                 bnd (ext w (GattTestCases p0)) (\<lambda>_.
                 bnd (ext w (SmTestCases p0)) (\<lambda>_.
                 bnd (ext w (L2capTestCases p0)) (\<lambda>_.
                 ret (gap_test_cases w p0 @ gatt_test_cases w p0
                      @ sm_test_cases w p0 @ l2cap_test_cases w p0)))))) (\<lambda>tcs.
        bnd (if 2 \<le> length ptses then
               bnd (ext w (MeshTestCases ptses)) (\<lambda>_.
               ret (tcs @ fst (mesh_test_cases w ptses), snd (mesh_test_cases w ptses)))
             else ret (tcs, [])) (\<lambda>(tcs, additional_test_cases).
        bnd (if truthy (test_cases a) \<or> truthy (excluded a) then
               bnd (ext w (GetTestCasesSubset tcs (test_cases a) (excluded a))) (\<lambda>_.
               ret (get_test_cases_subset w tcs (test_cases a) (excluded a)))
             else ret tcs) (\<lambda>tcs.
        bnd (ext w (RunTestCases ptses tcs additional_test_cases (retry a))) (\<lambda>_.
        bnd (ext w IutctlCleanup) (\<lambda>_.
        bnd (ext w PrintBye) (\<lambda>_.
        bnd (ext w StdoutFlush) (\<lambda>_.
        bnd (unregister_all w ptses) (\<lambda>_.
        ret 0)))))))))))))))))"

subsection \<open>The \<^verbatim>\<open>__main__\<close> guard\<close>

text \<open>
  The status of a process that ends with an uncaught \<^verbatim>\<open>SystemExit\<close>: 1 after a
  message, the low byte of an \<^verbatim>\<open>int\<close> status (a C long, 64 bits here), 0 for
  \<^verbatim>\<open>None\<close>. A status too large for an \<^verbatim>\<open>int\<close> is a \<^verbatim>\<open>long\<close>, which Python 2
  prints like a message: status 1.
\<close>

definition exit_status :: "exit_arg \<Rightarrow> int" where
  "exit_status x =
     (case x of
        ExitMsg m \<Rightarrow> 1
      | ExitCode n \<Rightarrow> (if - (2 ^ 63) \<le> n \<and> n < 2 ^ 63 then n mod 256 else 1)
      | ExitNone \<Rightarrow> 0)"

text \<open>
  The script, started with no call made and the world in state \<open>\<sigma>\<close>: the exit status of
  the process, the calls it made and the state it leaves the world in.
\<close>

definition script :: "'w world \<Rightarrow> cmdline \<Rightarrow> 'w \<Rightarrow> int \<times> 'w st" where
  "script w c \<sigma> =
     (case main w c ([], \<sigma>) of
        (Inr status, s) \<Rightarrow> (status, s)
      | (Inl KeyboardInterrupt, s) \<Rightarrow> (14, s)
      | (Inl (SystemExit x), s) \<Rightarrow> (exit_status x, s)
      | (Inl (OtherException m), s) \<Rightarrow> (16, s))"

section \<open>The calls of \<^verbatim>\<open>main\<close>, in order\<close>

text \<open>Calls made one after the other, up to the first that raises.\<close>

fun seq :: "'w world \<Rightarrow> call list \<Rightarrow> ('w, unit) prog" where
  "seq w [] = ret ()"
| "seq w (c # cs) = bnd (ext w c) (\<lambda>_. seq w cs)"

text \<open>
  The calls \<^verbatim>\<open>main\<close> makes on accepted arguments when none of them raises
  (\<open>main_plan\<close> below proves that \<^verbatim>\<open>main\<close> is this list run by \<open>seq\<close>):
  first those up to the enumeration of the test cases, then the filter, the run and the
  clean-up.
\<close>

definition setup_calls :: "'w world \<Rightarrow> args \<Rightarrow> call list" where
  "setup_calls w a =
     (let ips = (case ip_addr a of None \<Rightarrow> [] | Some ips \<Rightarrow> ips);
          ptses = map PTS ips;
          p0 = PTS (hd ips)
      in [InitCore]
         @ map (\<lambda>ip. InitPts ip (workspace a) (bd_addr a) (enable_max_logs a)
                       (tc_db_table_name a) (local_addr a)) ips
         @ [BtpInit, IutctlInit (kernel_image a) (tty_file a) (board a),
            InitStack, GetStack, SynchInit,
            GapTestCases p0, GattTestCases p0, SmTestCases p0, L2capTestCases p0]
         @ (if 2 \<le> length ptses then [MeshTestCases ptses] else []))"

definition run_calls :: "'w world \<Rightarrow> args \<Rightarrow> call list" where
  "run_calls w a =
     (let ips = (case ip_addr a of None \<Rightarrow> [] | Some ips \<Rightarrow> ips);
          ptses = map PTS ips;
          p0 = PTS (hd ips);
          tcs = gap_test_cases w p0 @ gatt_test_cases w p0 @ sm_test_cases w p0
                @ l2cap_test_cases w p0
                @ (if 2 \<le> length ptses then fst (mesh_test_cases w ptses) else []);
          filtering = (truthy (test_cases a) \<or> truthy (excluded a))
      in (if filtering then [GetTestCasesSubset tcs (test_cases a) (excluded a)] else [])
         @ [RunTestCases ptses
              (if filtering then get_test_cases_subset w tcs (test_cases a) (excluded a) else tcs)
              (if 2 \<le> length ptses then snd (mesh_test_cases w ptses) else [])
              (retry a),
            IutctlCleanup, PrintBye, StdoutFlush]
         @ map UnregisterXmlrpcPtscallback ptses)"

definition plan :: "'w world \<Rightarrow> args \<Rightarrow> call list" where
  "plan w a = setup_calls w a @ run_calls w a"

section \<open>The Response Synchronizer\<close>

text \<open>
  Modelled from the spec: the Response Synchronizer of section 4.1, which is the callback
  thread of \<^verbatim>\<open>autoptsclient_common\<close> (\<^verbatim>\<open>set_pending_response\<close>,
  \<^verbatim>\<open>clear_pending_responses\<close>); its code is not in this file, which only hands the two
  methods to \<^verbatim>\<open>stack_inst.synch_init\<close>. A pending response is an expectation of an event
  of one kind for one session, with the token given to the waiter.
\<close>

record pending_response =
  session :: string
  response_kind :: string
  token :: nat

text \<open>
  Modelled from the spec: the state of the synchronizer: the pending responses, the next
  token, the payloads delivered to a waiter and not yet taken (by token), and the events
  that found no waiter, oldest first.
\<close>

record synchronizer =
  pending :: "pending_response list"
  next_token :: nat
  delivered :: "(nat \<times> string) list"
  buffered :: "(string \<times> string \<times> string) list"

datatype sync_error = AlreadyPending string string

definition empty_sync :: synchronizer where
  "empty_sync = \<lparr> pending = [], next_token = 0, delivered = [], buffered = [] \<rparr>"

definition awaits :: "string \<Rightarrow> string \<Rightarrow> pending_response \<Rightarrow> bool" where
  "awaits sid k p = (session p = sid \<and> response_kind p = k)"

text \<open>
  Modelled from the spec: \<^verbatim>\<open>registerPending(sessionId, responseKind) -> token\<close>
  "records that the driver is now awaiting this kind of event for this session. Fails if
  an unmatched pending entry already exists for the same key."
\<close>

definition registerPending ::
  "string \<Rightarrow> string \<Rightarrow> synchronizer \<Rightarrow> sync_error + nat \<times> synchronizer" where
  "registerPending sid k sy =
     (if list_ex (awaits sid k) (pending sy) then Inl (AlreadyPending sid k)
      else Inr (next_token sy,
                sy\<lparr> pending := pending sy
                       @ [\<lparr> session = sid, response_kind = k, token = next_token sy \<rparr>],
                    next_token := Suc (next_token sy) \<rparr>))"

text \<open>
  Modelled from the spec: \<^verbatim>\<open>clearPending(token)\<close> "removes the expectation
  unconditionally; never blocks."
\<close>

definition clearPending :: "nat \<Rightarrow> synchronizer \<Rightarrow> synchronizer" where
  "clearPending t sy = sy\<lparr> pending := filter (\<lambda>p. token p \<noteq> t) (pending sy) \<rparr>"

text \<open>
  Modelled from the spec: \<^verbatim>\<open>deliver(sessionId, responseKind, payload)\<close> "if a matching
  pending entry exists, wakes exactly one waiter with the payload; if none exists, the
  event is buffered with a bounded capacity and a policy of dropping the oldest unmatched
  event". The capacity is not given by the spec: it is the parameter \<open>cap\<close>.
\<close>

definition deliver :: "nat \<Rightarrow> string \<Rightarrow> string \<Rightarrow> string \<Rightarrow> synchronizer \<Rightarrow> synchronizer" where
  "deliver cap sid k payload sy =
     (case find (awaits sid k) (pending sy) of
        Some p \<Rightarrow>
          sy\<lparr> pending := filter (\<lambda>q. token q \<noteq> token p) (pending sy),
              delivered := delivered sy @ [(token p, payload)] \<rparr>
      | None \<Rightarrow>
          (let b = buffered sy @ [(sid, k, payload)]
           in sy\<lparr> buffered := drop (length b - cap) b \<rparr>))"

text \<open>
  Modelled from the spec: \<^verbatim>\<open>awaitResponse(token, timeout) -> payload | TimedOut\<close>, seen
  when the wait ends: the payload if \<open>deliver\<close> has satisfied the token, otherwise
  \<open>None\<close> for \<open>TimedOut\<close>, and "on timeout the token is auto-cleared".
\<close>

definition awaitResponse :: "nat \<Rightarrow> synchronizer \<Rightarrow> string option \<times> synchronizer" where
  "awaitResponse t sy =
     (case map_of (delivered sy) t of
        Some payload \<Rightarrow> (Some payload, sy\<lparr> delivered := filter (\<lambda>d. fst d \<noteq> t) (delivered sy) \<rparr>)
      | None \<Rightarrow> (None, clearPending t sy))"

text \<open>The operations as data, and a run of them from the empty synchronizer.\<close>

datatype sync_op =
    Register string string
  | Clear nat
  | Deliver string string string
  | Await nat

fun sync_step :: "nat \<Rightarrow> synchronizer \<Rightarrow> sync_op \<Rightarrow> synchronizer" where
  "sync_step cap sy (Register sid k) =
     (case registerPending sid k sy of Inl e \<Rightarrow> sy | Inr (t, sy') \<Rightarrow> sy')"
| "sync_step cap sy (Clear t) = clearPending t sy"
| "sync_step cap sy (Deliver sid k payload) = deliver cap sid k payload sy"
| "sync_step cap sy (Await t) = snd (awaitResponse t sy)"

definition sync_run :: "nat \<Rightarrow> sync_op list \<Rightarrow> synchronizer" where
  "sync_run cap ops = foldl (sync_step cap) empty_sync ops"

text \<open>The invariant of section 3: no two pending responses for one (session, kind).\<close>

definition one_per_key :: "synchronizer \<Rightarrow> bool" where
  "one_per_key sy = distinct (map (\<lambda>p. (session p, response_kind p)) (pending sy))"

text \<open>Tokens are handed out once: those of the pending responses differ and are used.\<close>

definition tokens_fresh :: "synchronizer \<Rightarrow> bool" where
  "tokens_fresh sy =
     (distinct (map token (pending sy)) \<and> list_all (\<lambda>p. token p < next_token sy) (pending sy))"

section \<open>Example worlds and command lines\<close>

text \<open>
  Modelled from the spec: \<^verbatim>\<open>get_test_cases_subset\<close> of \<^verbatim>\<open>autoptsclient_common\<close>
  (not in this file), after \<^verbatim>\<open>filter\<close> of section 4.4: a name matches a test case by
  its identifier or by its profile; the included names are a whitelist, the excluded ones
  are then taken away. Only the example worlds use it.
\<close>

definition named :: "string list \<Rightarrow> test_case \<Rightarrow> bool" where
  "named ns t = (tc_name t \<in> set ns \<or> project t \<in> set ns)"

definition filter_cases ::
  "test_case list \<Rightarrow> string list option \<Rightarrow> string list option \<Rightarrow> test_case list" where
  "filter_cases tcs inc exc =
     filter (\<lambda>t. (case inc of None \<Rightarrow> True | Some ns \<Rightarrow> named ns t)
                \<and> (case exc of None \<Rightarrow> True | Some ns \<Rightarrow> \<not> named ns t)) tcs"

definition gap1 :: test_case where
  "gap1 = TestCase ''GAP'' ''GAP/1''"

definition gatt1 :: test_case where
  "gatt1 = TestCase ''GATT'' ''GATT/1''"

definition sm1 :: test_case where
  "sm1 = TestCase ''SM'' ''SM/1''"

definition l2cap1 :: test_case where
  "l2cap1 = TestCase ''L2CAP'' ''L2CAP/1''"

definition mesh1 :: test_case where
  "mesh1 = TestCase ''MESH'' ''MESH/1''"

definition mesh2 :: test_case where
  "mesh2 = TestCase ''MESH'' ''MESH/2''"

text \<open>
  A host where the user is not root, QEMU is installed, \<^verbatim>\<open>/dev/ttyUSB0\<close> exists,
  \<^verbatim>\<open>zephyr.elf\<close> is a file, each profile has one test case and no call raises.
\<close>

definition quiet_world :: "'w world" where
  "quiet_world =
     \<lparr> euid = 1000, QEMU_BIN = ''qemu-system-arm'', board_names = [''arduino_101''],
       path_exists = (\<lambda>p. p = ''/dev/ttyUSB0''),
       path_isfile = (\<lambda>p. p = ''zephyr.elf''),
       find_executable = (\<lambda>b. b = ''qemu-system-arm''),
       int_of_str = py_int,
       gap_test_cases = (\<lambda>p. [gap1]),
       gatt_test_cases = (\<lambda>p. [gatt1]),
       sm_test_cases = (\<lambda>p. [sm1]),
       l2cap_test_cases = (\<lambda>p. [l2cap1]),
       mesh_test_cases = (\<lambda>ps. ([mesh1], [mesh2])),
       get_test_cases_subset = filter_cases,
       perform = (\<lambda>c \<sigma>. (None, \<sigma>)) \<rparr>"

text \<open>
  The same host, where Ctrl-C arrives during \<^verbatim>\<open>run_test_cases\<close> while the driver is
  waiting for a response it has registered.
\<close>

definition interrupted_world :: "synchronizer world" where
  "interrupted_world =
     quiet_world\<lparr> perform :=
       (\<lambda>c sy. case c of
          RunTestCases ps tcs adds r \<Rightarrow>
            (Some KeyboardInterrupt, sync_step 0 sy (Register ''10.0.0.1'' ''GAP/1''))
        | _ \<Rightarrow> (None, sy)) \<rparr>"

text \<open>\<^verbatim>\<open>autoptsclient-zephyr.py zephyr-hci zephyr.elf -i 10.0.0.1\<close>\<close>

definition one_server :: cmdline where
  "one_server =
     \<lparr> opt_ip_addr = Some [''10.0.0.1''], opt_local_addr = None,
       arg_workspace = Some ''zephyr-hci'', arg_kernel_image = Some ''zephyr.elf'',
       opt_tty_file = None, opt_bd_addr = None, opt_debug_logs = False, opt_board = None,
       opt_test_cases = None, opt_excluded = None, opt_retry = None, opt_store = False \<rparr>"

text \<open>\<^verbatim>\<open>autoptsclient-zephyr.py zephyr-hci zephyr.elf -i 10.0.0.1 10.0.0.2\<close>\<close>

definition two_servers :: cmdline where
  "two_servers = one_server\<lparr> opt_ip_addr := Some [''10.0.0.1'', ''10.0.0.2''] \<rparr>"

text \<open>The calls of \<^verbatim>\<open>main\<close> in the quiet world on the two command lines.\<close>



definition setup_one :: "string option \<Rightarrow> call list" where
  "setup_one tty =
     [InitCore, InitPts ''10.0.0.1'' ''zephyr-hci'' None False None None,
      BtpInit, IutctlInit ''zephyr.elf'' tty None, InitStack, GetStack, SynchInit,
      GapTestCases (PTS ''10.0.0.1''), GattTestCases (PTS ''10.0.0.1''),
      SmTestCases (PTS ''10.0.0.1''), L2capTestCases (PTS ''10.0.0.1'')]"

definition calls_one :: "string option \<Rightarrow> int \<Rightarrow> call list" where
  "calls_one tty r =
     setup_one tty
     @ [RunTestCases [PTS ''10.0.0.1''] [gap1, gatt1, sm1, l2cap1] [] r,
        IutctlCleanup, PrintBye, StdoutFlush,
        UnregisterXmlrpcPtscallback (PTS ''10.0.0.1'')]"

definition setup_two :: "call list" where
  "setup_two =
     [InitCore, InitPts ''10.0.0.1'' ''zephyr-hci'' None False None None,
      InitPts ''10.0.0.2'' ''zephyr-hci'' None False None None,
      BtpInit, IutctlInit ''zephyr.elf'' None None, InitStack, GetStack, SynchInit,
      GapTestCases (PTS ''10.0.0.1''), GattTestCases (PTS ''10.0.0.1''),
      SmTestCases (PTS ''10.0.0.1''), L2capTestCases (PTS ''10.0.0.1''),
      MeshTestCases [PTS ''10.0.0.1'', PTS ''10.0.0.2'']]"

definition cleanup_two :: "call list" where
  "cleanup_two =
     [IutctlCleanup, PrintBye, StdoutFlush,
      UnregisterXmlrpcPtscallback (PTS ''10.0.0.1''),
      UnregisterXmlrpcPtscallback (PTS ''10.0.0.2'')]"

definition calls_two :: "call list" where
  "calls_two =
     setup_two
     @ [RunTestCases [PTS ''10.0.0.1'', PTS ''10.0.0.2'']
          [gap1, gatt1, sm1, l2cap1, mesh1] [mesh2] 0]
     @ cleanup_two"

definition calls_two_gap :: "call list" where
  "calls_two_gap =
     setup_two
     @ [GetTestCasesSubset [gap1, gatt1, sm1, l2cap1, mesh1] (Some [''GAP'']) None,
        RunTestCases [PTS ''10.0.0.1'', PTS ''10.0.0.2''] [gap1] [mesh2] 0]
     @ cleanup_two"


section \<open>Lemmas: programs\<close>

lemma ret_bnd: "bnd (ret x) f = f x"
  by (rule ext) (simp add: bnd_def ret_def)

lemma bnd_assoc: "bnd (bnd m f) g = bnd m (\<lambda>x. bnd (f x) g)"
  by (rule ext) (simp add: bnd_def split: prod.splits sum.splits)

lemma seq_append: "seq w (xs @ ys) = bnd (seq w xs) (\<lambda>_. seq w ys)"
  by (induction xs) (simp_all add: ret_bnd bnd_assoc)

lemma seq_ok:
  "(\<forall>c \<in> set cs. \<forall>\<sigma>. fst (perform w c \<sigma>) = None) \<Longrightarrow>
     \<exists>\<sigma>'. seq w cs (tr, \<sigma>) = (Inr (), tr @ cs, \<sigma>')"
proof (induction cs arbitrary: tr \<sigma>)
  case Nil
  then show ?case by (simp add: ret_def)
next
  case (Cons c cs)
  from Cons.prems have "fst (perform w c \<sigma>) = None" by simp
  then obtain \<sigma>1 where p: "perform w c \<sigma> = (None, \<sigma>1)" by (cases "perform w c \<sigma>") auto
  from Cons.prems have "\<forall>c \<in> set cs. \<forall>\<sigma>. fst (perform w c \<sigma>) = None" by simp
  from Cons.IH [OF this, of "tr @ [c]" \<sigma>1] obtain \<sigma>' where
    "seq w cs (tr @ [c], \<sigma>1) = (Inr (), (tr @ [c]) @ cs, \<sigma>')" by blast
  with p show ?case by (simp add: bnd_def ext_def)
qed

lemma seq_result:
  "seq w cs (tr, \<sigma>) = (r, tr', \<sigma>') \<Longrightarrow>
     (r = Inr () \<and> tr' = tr @ cs) \<or>
     (\<exists>e n \<sigma>0. r = Inl e \<and> n < length cs \<and> tr' = tr @ take (Suc n) cs
        \<and> perform w (cs ! n) \<sigma>0 = (Some e, \<sigma>'))"
proof (induction cs arbitrary: tr \<sigma>)
  case Nil
  then show ?case by (auto simp: ret_def)
next
  case (Cons c cs)
  show ?case
  proof (cases "perform w c \<sigma>")
    case (Pair o1 \<sigma>1)
    show ?thesis
    proof (cases o1)
      case None
      with Pair Cons.prems have "seq w cs (tr @ [c], \<sigma>1) = (r, tr', \<sigma>')"
        by (simp add: bnd_def ext_def)
      from Cons.IH [OF this] show ?thesis
      proof
        assume "r = Inr () \<and> tr' = (tr @ [c]) @ cs"
        then show ?thesis by simp
      next
        assume "\<exists>e n \<sigma>0. r = Inl e \<and> n < length cs \<and> tr' = (tr @ [c]) @ take (Suc n) cs
                  \<and> perform w (cs ! n) \<sigma>0 = (Some e, \<sigma>')"
        then obtain e n \<sigma>0 where
          h: "r = Inl e" "n < length cs" "tr' = (tr @ [c]) @ take (Suc n) cs"
             "perform w (cs ! n) \<sigma>0 = (Some e, \<sigma>')" by blast
        have "r = Inl e \<and> Suc n < length (c # cs) \<and> tr' = tr @ take (Suc (Suc n)) (c # cs)
                \<and> perform w ((c # cs) ! Suc n) \<sigma>0 = (Some e, \<sigma>')"
          using h by simp
        then show ?thesis by blast
      qed
    next
      case (Some e)
      with Pair Cons.prems have "r = Inl e" "tr' = tr @ [c]" "\<sigma>' = \<sigma>1"
        by (simp_all add: bnd_def ext_def)
      with Pair Some have "r = Inl e \<and> 0 < length (c # cs) \<and> tr' = tr @ take (Suc 0) (c # cs)
                \<and> perform w ((c # cs) ! 0) \<sigma> = (Some e, \<sigma>')" by simp
      then show ?thesis by blast
    qed
  qed
qed

section \<open>Lemmas: arguments\<close>

lemma arg_parser_fields:
  "arg_parser w c = Inr a \<Longrightarrow>
     ip_addr a = opt_ip_addr c \<and> test_cases a = opt_test_cases c
     \<and> excluded a = opt_excluded c \<and> tty_file a = opt_tty_file c
     \<and> arg_kernel_image c = Some (kernel_image a)
     \<and> (case opt_retry c of None \<Rightarrow> retry a = 0 | Some t \<Rightarrow> int_of_str w t = Some (retry a))"
  by (auto simp: arg_parser_def usage_error_def split: option.splits if_splits)

lemma parse_args_Inr:
  "parse_args w c = Inr a \<Longrightarrow> arg_parser w c = Inr a \<and> check_args w a = Inr ()"
  by (auto simp: parse_args_def split: sum.splits)

lemma check_args_Inl:
  "check_args w a = Inl e \<Longrightarrow> \<exists>m. e = SystemExit (ExitMsg m)"
  by (auto simp: check_args_def sys_exit_def split: if_splits option.splits sum.splits)

lemma arg_parser_Inl:
  "arg_parser w c = Inl e \<Longrightarrow> e = SystemExit (ExitCode 2)"
  by (auto simp: arg_parser_def usage_error_def split: if_splits option.splits)

lemma parse_args_Inl:
  "parse_args w c = Inl e \<Longrightarrow> e = SystemExit (ExitCode 2) \<or> (\<exists>m. e = SystemExit (ExitMsg m))"
  by (auto simp: parse_args_def split: sum.splits dest: arg_parser_Inl check_args_Inl)

lemma parse_args_ip:
  "parse_args w c = Inr a \<Longrightarrow> \<exists>ip ips. ip_addr a = Some (ip # ips)"
  by (cases "ip_addr a"; cases "the (ip_addr a)")
     (auto simp: parse_args_def check_args_def truthy_def sys_exit_def split: sum.splits if_splits)

section \<open>Lemmas: \<^verbatim>\<open>main\<close> and its plan\<close>

lemma init_ptses_seq:
  "init_ptses w a ips acc =
     bnd (seq w (map (\<lambda>ip. InitPts ip (workspace a) (bd_addr a) (enable_max_logs a)
                       (tc_db_table_name a) (local_addr a)) ips))
       (\<lambda>_. ret (acc @ map PTS ips))"
  by (induction ips arbitrary: acc) (simp_all add: ret_bnd bnd_assoc)

lemma unregister_all_seq:
  "unregister_all w ps = bnd (seq w (map UnregisterXmlrpcPtscallback ps)) (\<lambda>_. ret ())"
  by (induction ps) (simp_all add: ret_bnd bnd_assoc)

lemma main_plan:
  assumes "euid w \<noteq> 0" and "parse_args w c = Inr a"
  shows "main w c = bnd (seq w (plan w a)) (\<lambda>_. ret 0)"
proof -
  obtain ip ips where ip: "ip_addr a = Some (ip # ips)"
    using parse_args_ip [OF assms(2)] by blast
  have l: "bnd (lift (Inr a)) f = f a" for f :: "args \<Rightarrow> ('w, int) prog"
    by (rule ext) (simp add: bnd_def lift_def)
  show ?thesis
    unfolding main_def plan_def setup_calls_def run_calls_def
    by (simp add: assms ip l init_ptses_seq unregister_all_seq seq_append ret_bnd bnd_assoc
          Let_def)
qed

lemma main_root: "euid w = 0 \<Longrightarrow> main w c s = (Inl (SystemExit (ExitMsg RunAsRoot)), s)"
  by (simp add: main_def raise_def)

lemma main_rejected:
  "euid w \<noteq> 0 \<Longrightarrow> parse_args w c = Inl e \<Longrightarrow> main w c s = (Inl e, s)"
  by (simp add: main_def bnd_def lift_def)

lemma main_result:
  assumes "euid w \<noteq> 0" and "parse_args w c = Inr a"
    and "main w c ([], \<sigma>) = (res, tr, \<sigma>')"
  shows "(res = Inr 0 \<and> tr = plan w a) \<or>
         (\<exists>e n \<sigma>0. res = Inl e \<and> n < length (plan w a) \<and> tr = take (Suc n) (plan w a)
            \<and> perform w (plan w a ! n) \<sigma>0 = (Some e, \<sigma>'))"
proof (cases "seq w (plan w a) ([], \<sigma>)")
  case (fields r1 tr1 \<sigma>1)
  from seq_result [OF fields] show ?thesis
  proof
    assume "r1 = Inr () \<and> tr1 = [] @ plan w a"
    with fields assms show ?thesis
      by (simp add: main_plan bnd_def ret_def)
  next
    assume "\<exists>e n \<sigma>0. r1 = Inl e \<and> n < length (plan w a) \<and> tr1 = [] @ take (Suc n) (plan w a)
              \<and> perform w (plan w a ! n) \<sigma>0 = (Some e, \<sigma>1)"
    then obtain e n \<sigma>0 where
      h: "r1 = Inl e" "n < length (plan w a)" "tr1 = [] @ take (Suc n) (plan w a)"
         "perform w (plan w a ! n) \<sigma>0 = (Some e, \<sigma>1)" by blast
    with fields assms have "res = Inl e" "tr = take (Suc n) (plan w a)" "\<sigma>' = \<sigma>1"
      by (simp_all add: main_plan bnd_def)
    with h show ?thesis by blast
  qed
qed

lemma main_quiet:
  assumes "euid w \<noteq> 0" and "parse_args w c = Inr a"
    and "\<forall>x \<sigma>. fst (perform w x \<sigma>) = None"
  shows "\<exists>\<sigma>'. main w c ([], \<sigma>) = (Inr 0, plan w a, \<sigma>')"
proof -
  from assms(3) have "\<forall>x \<in> set (plan w a). \<forall>\<sigma>. fst (perform w x \<sigma>) = None" by simp
  from seq_ok [OF this, of "[]" \<sigma>] obtain \<sigma>' where
    "seq w (plan w a) ([], \<sigma>) = (Inr (), [] @ plan w a, \<sigma>')" by blast
  then have "main w c ([], \<sigma>) = (Inr 0, plan w a, \<sigma>')"
    by (simp add: main_plan [OF assms(1,2)] bnd_def ret_def)
  then show ?thesis by blast
qed


text \<open>A call that was made is a planned one, and everything planned before it was made.\<close>

lemma prefix_reaches:
  assumes "x \<in> set (take k (xs @ ys))" and "x \<notin> set xs"
  shows "set xs \<subseteq> set (take k (xs @ ys))"
proof (cases "k \<le> length xs")
  case True
  with assms(1) have "x \<in> set (take k xs)" by simp
  then have "x \<in> set xs" by (rule in_set_takeD)
  with assms(2) show ?thesis by simp
next
  case False
  then show ?thesis by simp
qed

lemma run_not_in_setup: "RunTestCases ps tcs adds r \<notin> set (setup_calls w a)"
  by (auto simp: setup_calls_def Let_def)

lemma main_calls:
  assumes "main w c ([], \<sigma>) = (res, tr, \<sigma>')" and "x \<in> set tr"
  shows "euid w \<noteq> 0 \<and> (\<exists>a k. parse_args w c = Inr a \<and> tr = take k (plan w a))"
proof (cases "euid w = 0")
  case True
  with assms show ?thesis by (simp add: main_root)
next
  case False
  show ?thesis
  proof (cases "parse_args w c")
    case (Inl e)
    with False assms show ?thesis by (simp add: main_rejected)
  next
    case (Inr a)
    from main_result [OF False Inr assms(1)]
    have "tr = take (length (plan w a)) (plan w a) \<or> (\<exists>n. tr = take (Suc n) (plan w a))"
      by auto
    then have "\<exists>k. tr = take k (plan w a)" by blast
    with False Inr show ?thesis by simp
  qed
qed

lemma run_call:
  assumes "main w c ([], \<sigma>) = (res, tr, \<sigma>')" and "RunTestCases ps tcs adds r \<in> set tr"
  shows "\<exists>a ip ips. arg_parser w c = Inr a \<and> ip_addr a = Some (ip # ips)
           \<and> RunTestCases ps tcs adds r \<in> set (run_calls w a)
           \<and> set (setup_calls w a) \<subseteq> set tr \<and> set tr \<subseteq> set (plan w a)"
proof -
  from main_calls [OF assms] obtain a k where
    a: "parse_args w c = Inr a" and k: "tr = take k (plan w a)" by blast
  obtain ip ips where ip: "ip_addr a = Some (ip # ips)"
    using parse_args_ip [OF a] by blast
  from assms(2) k have m: "RunTestCases ps tcs adds r \<in> set (take k (setup_calls w a @ run_calls w a))"
    by (simp add: plan_def)
  from prefix_reaches [OF m run_not_in_setup] k
  have s: "set (setup_calls w a) \<subseteq> set tr" by (simp add: plan_def)
  from m have "RunTestCases ps tcs adds r \<in> set (setup_calls w a @ run_calls w a)"
    by (rule in_set_takeD)
  with run_not_in_setup [of ps tcs adds r w a]
  have r: "RunTestCases ps tcs adds r \<in> set (run_calls w a)" by simp
  from k have "set tr \<subseteq> set (plan w a)" by (simp add: set_take_subset)
  with parse_args_Inr [OF a] ip r s show ?thesis by blast
qed

lemma run_calls_run:
  assumes "RunTestCases ps tcs adds r \<in> set (run_calls w a)" and "ip_addr a = Some (ip # ips)"
  shows "ps = map PTS (ip # ips) \<and> r = retry a
    \<and> adds = (if 2 \<le> length ps then snd (mesh_test_cases w ps) else [])
    \<and> tcs = (let enumerated = gap_test_cases w (hd ps) @ gatt_test_cases w (hd ps)
                  @ sm_test_cases w (hd ps) @ l2cap_test_cases w (hd ps)
                  @ (if 2 \<le> length ps then fst (mesh_test_cases w ps) else [])
              in if truthy (test_cases a) \<or> truthy (excluded a)
                 then get_test_cases_subset w enumerated (test_cases a) (excluded a)
                 else enumerated)"
  using assms by (auto simp: run_calls_def Let_def split: if_splits)



lemma plan_subset:
  assumes "GetTestCasesSubset x inc exc \<in> set (plan w a)" and "ip_addr a = Some (ip # ips)"
  shows "(truthy (test_cases a) \<or> truthy (excluded a)) \<and> inc = test_cases a \<and> exc = excluded a
    \<and> x = (let ps = map PTS (ip # ips)
           in gap_test_cases w (hd ps) @ gatt_test_cases w (hd ps)
              @ sm_test_cases w (hd ps) @ l2cap_test_cases w (hd ps)
              @ (if 2 \<le> length ps then fst (mesh_test_cases w ps) else []))"
  using assms by (auto simp: plan_def setup_calls_def run_calls_def Let_def split: if_splits)




section \<open>The example runs\<close>

lemmas model_defs =
  main_def parse_args_def arg_parser_def check_args_def truthy_def startswith_def
  bnd_def lift_def ext_def ret_def raise_def tc_db_table_name_def sys_exit_def usage_error_def
  py_int_def strip_def is_space_def digit_val_def

lemmas example_defs =
  quiet_world_def one_server_def two_servers_def filter_cases_def named_def
  setup_one_def calls_one_def setup_two_def calls_two_def calls_two_gap_def cleanup_two_def
  gap1_def gatt1_def sm1_def l2cap1_def mesh1_def mesh2_def




lemma run_one_server:
  "main quiet_world one_server ([], \<sigma>) = (Inr 0, calls_one None 0, \<sigma>)"
  by (simp add: model_defs example_defs)

lemma run_two_servers:
  "main quiet_world two_servers ([], \<sigma>) = (Inr 0, calls_two, \<sigma>)"
  by (simp add: model_defs example_defs)

lemma run_two_servers_gap:
  "main quiet_world (two_servers\<lparr> opt_test_cases := Some [''GAP''] \<rparr>) ([], \<sigma>)
     = (Inr 0, calls_two_gap, \<sigma>)"
  by (simp add: model_defs example_defs)


lemma run_empty_tty:
  "main quiet_world (one_server\<lparr> opt_tty_file := Some [] \<rparr>) ([], \<sigma>)
     = (Inr 0, calls_one (Some []) 0, \<sigma>)"
  by (simp add: model_defs example_defs)

lemma run_interrupted:
  "main interrupted_world one_server ([], empty_sync)
     = (Inl KeyboardInterrupt,
        setup_one None @ [RunTestCases [PTS ''10.0.0.1''] [gap1, gatt1, sm1, l2cap1] [] 0],
        \<lparr> pending = [\<lparr> session = ''10.0.0.1'', response_kind = ''GAP/1'', token = 0 \<rparr>],
          next_token = 1, delivered = [], buffered = [] \<rparr>)"
  by (simp add: model_defs example_defs interrupted_world_def empty_sync_def
        registerPending_def awaits_def)

lemma run_root:
  "main (quiet_world\<lparr> euid := 0 \<rparr>) c s = (Inl (SystemExit (ExitMsg RunAsRoot)), s)"
  by (simp add: main_root)

lemma run_usage_error:
  "main quiet_world (one_server\<lparr> arg_kernel_image := None \<rparr>) ([], \<sigma>)
     = (Inl (SystemExit (ExitCode 2)), [], \<sigma>)"
  by (simp add: model_defs example_defs)

lemma run_bad_tty:
  "main quiet_world (one_server\<lparr> opt_tty_file := Some ''/dev/foo'' \<rparr>) s
     = (Inl (SystemExit (ExitMsg (NotATty ''/dev/foo''))), s)"
  by (simp add: model_defs example_defs)

section \<open>Lemmas: the synchronizer\<close>

lemma register_appends:
  assumes "registerPending sid k sy = Inr (t, sy')"
  shows "\<not> list_ex (awaits sid k) (pending sy) \<and> t = next_token sy
    \<and> pending sy' = pending sy @ [\<lparr> session = sid, response_kind = k, token = t \<rparr>]"
  using assms by (auto simp: registerPending_def split: if_splits)

lemma register_keeps_invariant:
  assumes "one_per_key sy" and "registerPending sid k sy = Inr (t, sy')"
  shows "one_per_key sy'"
proof -
  from register_appends [OF assms(2)] have
    n: "\<not> list_ex (awaits sid k) (pending sy)"
    and p: "pending sy' = pending sy @ [\<lparr> session = sid, response_kind = k, token = t \<rparr>]"
    by simp_all
  from n have "(sid, k) \<notin> set (map (\<lambda>p. (session p, response_kind p)) (pending sy))"
    by (auto simp: list_ex_iff awaits_def)
  with assms(1) show ?thesis by (simp add: one_per_key_def p)
qed

lemma clear_keeps_invariant: "one_per_key sy \<Longrightarrow> one_per_key (clearPending t sy)"
  by (simp add: one_per_key_def clearPending_def distinct_map_filter)

lemma deliver_keeps_invariant: "one_per_key sy \<Longrightarrow> one_per_key (deliver cap sid k payload sy)"
  by (simp add: one_per_key_def deliver_def Let_def distinct_map_filter split: option.splits)

lemma await_keeps_invariant: "one_per_key sy \<Longrightarrow> one_per_key (snd (awaitResponse t sy))"
  by (simp add: one_per_key_def awaitResponse_def clearPending_def distinct_map_filter
        split: option.splits)

lemma step_keeps_invariant: "one_per_key sy \<Longrightarrow> one_per_key (sync_step cap sy x)"
proof (cases x)
  case (Register sid k)
  assume i: "one_per_key sy"
  show ?thesis
  proof (cases "registerPending sid k sy")
    case (Inl e)
    with Register i show ?thesis by simp
  next
    case (Inr p)
    obtain t sy' where "p = (t, sy')" by (cases p)
    with Inr Register register_keeps_invariant [OF i, of sid k t sy'] show ?thesis by simp
  qed
qed (simp_all add: clear_keeps_invariant deliver_keeps_invariant await_keeps_invariant)

lemma run_keeps_invariant: "one_per_key (sync_run cap ops)"
proof (induction ops rule: rev_induct)
  case Nil
  show ?case by (simp add: sync_run_def one_per_key_def empty_sync_def)
next
  case (snoc x xs)
  then show ?case by (simp add: sync_run_def step_keeps_invariant)
qed

lemma register_twice:
  assumes "registerPending sid k sy = Inr (t, sy')"
  shows "registerPending sid k sy' = Inl (AlreadyPending sid k)"
proof -
  from register_appends [OF assms]
  have "pending sy' = pending sy @ [\<lparr> session = sid, response_kind = k, token = t \<rparr>]"
    by simp
  then show ?thesis by (simp add: registerPending_def awaits_def)
qed

text \<open>Tokens stay fresh, and the invariant holds along any further operations.\<close>

lemma register_keeps_tokens:
  assumes "tokens_fresh sy" and "registerPending sid k sy = Inr (t, sy')"
  shows "tokens_fresh sy'"
proof -
  from assms(2) have p: "pending sy' = pending sy
      @ [\<lparr> session = sid, response_kind = k, token = next_token sy \<rparr>]"
    and n: "next_token sy' = Suc (next_token sy)"
    by (auto simp: registerPending_def split: if_splits)
  from assms(1) have d: "distinct (map token (pending sy))"
    and b: "\<forall>p \<in> set (pending sy). token p < next_token sy"
    by (simp_all add: tokens_fresh_def list_all_iff)
  from b have "next_token sy \<notin> token ` set (pending sy)" by auto
  with d b show ?thesis by (auto simp: tokens_fresh_def list_all_iff p n less_Suc_eq)
qed

lemma clear_keeps_tokens: "tokens_fresh sy \<Longrightarrow> tokens_fresh (clearPending t sy)"
  by (simp add: tokens_fresh_def clearPending_def distinct_map_filter list_all_iff)

lemma deliver_keeps_tokens: "tokens_fresh sy \<Longrightarrow> tokens_fresh (deliver cap sid k payload sy)"
  by (simp add: tokens_fresh_def deliver_def Let_def distinct_map_filter list_all_iff
        split: option.splits)

lemma await_keeps_tokens: "tokens_fresh sy \<Longrightarrow> tokens_fresh (snd (awaitResponse t sy))"
  by (simp add: tokens_fresh_def awaitResponse_def clearPending_def distinct_map_filter
        list_all_iff split: option.splits)

lemma step_keeps_tokens: "tokens_fresh sy \<Longrightarrow> tokens_fresh (sync_step cap sy x)"
proof (cases x)
  case (Register sid k)
  assume i: "tokens_fresh sy"
  show ?thesis
  proof (cases "registerPending sid k sy")
    case (Inl e)
    with Register i show ?thesis by simp
  next
    case (Inr p)
    obtain t sy' where "p = (t, sy')" by (cases p)
    with Inr Register register_keeps_tokens [OF i, of sid k t sy'] show ?thesis by simp
  qed
qed (simp_all add: clear_keeps_tokens deliver_keeps_tokens await_keeps_tokens)

lemma steps_keep_tokens: "tokens_fresh sy \<Longrightarrow> tokens_fresh (foldl (sync_step cap) sy xs)"
  by (induction xs arbitrary: sy) (simp_all add: step_keeps_tokens)

lemma steps_keep_invariant: "one_per_key sy \<Longrightarrow> one_per_key (foldl (sync_step cap) sy xs)"
  by (induction xs arbitrary: sy) (simp_all add: step_keeps_invariant)

lemma run_keeps_tokens: "tokens_fresh (sync_run cap ops)"
proof -
  have "tokens_fresh empty_sync" by (simp add: tokens_fresh_def empty_sync_def)
  then show ?thesis unfolding sync_run_def by (rule steps_keep_tokens)
qed

text \<open>
  A pending response stays where it is under every operation but the three that end it:
  clearing its token, awaiting its token (which times out and clears it) and delivering
  an event of its session and kind.
\<close>

lemma step_keeps_entry:
  assumes "tokens_fresh sy" and "e \<in> set (pending sy)"
    and "x \<noteq> Clear (token e)" and "x \<noteq> Await (token e)"
    and "\<forall>payload. x \<noteq> Deliver (session e) (response_kind e) payload"
  shows "e \<in> set (pending (sync_step cap sy x))"
proof (cases x)
  case (Register sid k)
  with assms(2) show ?thesis
    by (auto simp: registerPending_def split: if_splits)
next
  case (Clear t)
  with assms(2,3) show ?thesis by (simp add: clearPending_def)
next
  case (Deliver sid k payload)
  show ?thesis
  proof (cases "find (awaits sid k) (pending sy)")
    case None
    with Deliver assms(2) show ?thesis by (simp add: deliver_def Let_def)
  next
    case (Some q)
    then have q: "q \<in> set (pending sy)" and a: "awaits sid k q"
      by (auto simp: find_Some_iff)
    have "token q \<noteq> token e"
    proof
      assume "token q = token e"
      moreover from assms(1) have "inj_on token (set (pending sy))"
        by (simp add: tokens_fresh_def distinct_map)
      ultimately have "q = e" using q assms(2) by (auto dest: inj_onD)
      with a have "sid = session e \<and> k = response_kind e" by (simp add: awaits_def)
      with Deliver assms(5) show False by simp
    qed
    with Deliver Some assms(2) show ?thesis by (simp add: deliver_def)
  qed
next
  case (Await t)
  with assms(2,4) show ?thesis
    by (simp add: awaitResponse_def clearPending_def split: option.splits)
qed

lemma steps_keep_entry:
  assumes "tokens_fresh sy" and "e \<in> set (pending sy)"
    and "\<forall>x \<in> set xs. x \<noteq> Clear (token e) \<and> x \<noteq> Await (token e)
           \<and> (\<forall>payload. x \<noteq> Deliver (session e) (response_kind e) payload)"
  shows "e \<in> set (pending (foldl (sync_step cap) sy xs))"
  using assms
proof (induction xs arbitrary: sy)
  case Nil
  then show ?case by simp
next
  case (Cons x xs)
  from Cons.prems have "e \<in> set (pending (sync_step cap sy x))"
    by (intro step_keeps_entry) simp_all
  moreover from Cons.prems have "tokens_fresh (sync_step cap sy x)"
    by (simp add: step_keeps_tokens)
  ultimately have "e \<in> set (pending (foldl (sync_step cap) (sync_step cap sy x) xs))"
    using Cons.prems by (intro Cons.IH) simp_all
  then show ?case by simp
qed

lemma pending_refuses:
  assumes "e \<in> set (pending sy)"
  shows "registerPending (session e) (response_kind e) sy
           = Inl (AlreadyPending (session e) (response_kind e))"
  using assms by (auto simp: registerPending_def list_ex_iff awaits_def)

lemma only_one_awaits:
  assumes "distinct (map (\<lambda>p. (session p, response_kind p)) xs)" and "e \<in> set xs"
  shows "filter (awaits (session e) (response_kind e)) xs = [e]"
  using assms
proof (induction xs)
  case Nil
  then show ?case by simp
next
  case (Cons x xs)
  show ?case
  proof (cases "x = e")
    case True
    from Cons.prems(1) True
    have n: "(session e, response_kind e) \<notin> (\<lambda>p. (session p, response_kind p)) ` set xs"
      by simp
    have "\<forall>p \<in> set xs. \<not> awaits (session e) (response_kind e) p"
    proof (intro ballI notI)
      fix p
      assume "p \<in> set xs" and "awaits (session e) (response_kind e) p"
      then have "(session e, response_kind e) \<in> (\<lambda>p. (session p, response_kind p)) ` set xs"
        by (auto simp: awaits_def image_iff intro!: bexI [of _ p])
      with n show False by simp
    qed
    then have "filter (awaits (session e) (response_kind e)) xs = []"
      by (simp add: filter_empty_conv)
    moreover have "awaits (session e) (response_kind e) e" by (simp add: awaits_def)
    ultimately show ?thesis using True by simp
  next
    case False
    with Cons.prems have e: "e \<in> set xs" by simp
    from Cons.prems(1)
    have n: "(session x, response_kind x) \<notin> (\<lambda>p. (session p, response_kind p)) ` set xs"
      by simp
    have "\<not> awaits (session e) (response_kind e) x"
    proof
      assume "awaits (session e) (response_kind e) x"
      with e have "(session x, response_kind x) \<in> (\<lambda>p. (session p, response_kind p)) ` set xs"
        by (auto simp: awaits_def image_iff intro!: bexI [of _ e])
      with n show False by simp
    qed
    with Cons.IH e Cons.prems(1) show ?thesis by simp
  qed
qed

section \<open>The test cases handed to the run\<close>





text \<open>
  Claim C3. With neither \<^verbatim>\<open>--test-cases\<close> nor \<^verbatim>\<open>--excluded\<close> on the command line, the
  sequence given to \<^verbatim>\<open>run_test_cases\<close> is the enumerated one, unchanged, and
  \<^verbatim>\<open>get_test_cases_subset\<close> is not called at all.
\<close>

theorem unfiltered_when_no_names:
  assumes "main w c ([], \<sigma>) = (res, tr, \<sigma>')"
    and "RunTestCases ps tcs adds r \<in> set tr"
    and "opt_test_cases c = None" and "opt_excluded c = None"
  shows "tcs = gap_test_cases w (hd ps) @ gatt_test_cases w (hd ps)
               @ sm_test_cases w (hd ps) @ l2cap_test_cases w (hd ps)
               @ (if 2 \<le> length ps then fst (mesh_test_cases w ps) else [])
    \<and> GetTestCasesSubset x inc exc \<notin> set tr"
proof -
  from run_call [OF assms(1,2)] obtain a ip ips where
    a: "arg_parser w c = Inr a" and ip: "ip_addr a = Some (ip # ips)"
    and r: "RunTestCases ps tcs adds r \<in> set (run_calls w a)"
    and hi: "set tr \<subseteq> set (plan w a)" by blast
  from arg_parser_fields [OF a] assms(3,4)
  have n: "\<not> (truthy (test_cases a) \<or> truthy (excluded a))" by (simp add: truthy_def)
  have "GetTestCasesSubset x inc exc \<notin> set (plan w a)"
  proof
    assume "GetTestCasesSubset x inc exc \<in> set (plan w a)"
    from plan_subset [OF this ip] have "truthy (test_cases a) \<or> truthy (excluded a)"
      by (rule conjunct1)
    with n show False by (rule_tac notE)
  qed
  with hi have "GetTestCasesSubset x inc exc \<notin> set tr" by (rule_tac contra_subsetD)
  moreover have "tcs = gap_test_cases w (hd ps) @ gatt_test_cases w (hd ps)
               @ sm_test_cases w (hd ps) @ l2cap_test_cases w (hd ps)
               @ (if 2 \<le> length ps then fst (mesh_test_cases w ps) else [])"
    using run_calls_run [OF r ip] n by (simp add: Let_def)
  ultimately show ?thesis by simp
qed

theorem unfiltered_when_no_names_witness:
  "main quiet_world two_servers ([], ()) = (Inr 0, calls_two, ())
   \<and> RunTestCases [PTS ''10.0.0.1'', PTS ''10.0.0.2''] [gap1, gatt1, sm1, l2cap1, mesh1] [mesh2] 0
       \<in> set calls_two
   \<and> opt_test_cases two_servers = None \<and> opt_excluded two_servers = None
   \<and> GetTestCasesSubset [gap1, gatt1, sm1, l2cap1, mesh1] None None \<notin> set calls_two"
proof -
  have h1: "main quiet_world two_servers ([], ()) = (Inr 0, calls_two, ())"
    by (rule run_two_servers)
  have h2: "RunTestCases [PTS ''10.0.0.1'', PTS ''10.0.0.2'']
              [gap1, gatt1, sm1, l2cap1, mesh1] [mesh2] 0 \<in> set calls_two"
    by (simp add: calls_two_def)
  have h3: "opt_test_cases two_servers = None"
    by (simp add: two_servers_def one_server_def)
  have h4: "opt_excluded two_servers = None"
    by (simp add: two_servers_def one_server_def)
  have c: "GetTestCasesSubset [gap1, gatt1, sm1, l2cap1, mesh1] None None \<notin> set calls_two"
    using unfiltered_when_no_names [OF h1 h2 h3 h4,
            of "[gap1, gatt1, sm1, l2cap1, mesh1]" None None]
    by (rule conjunct2)
  show ?thesis using h1 h2 h3 h4 c by simp
qed

text \<open>
  Claim C9. Whatever include and exclude lists are given, the additional sequence reaches
  \<^verbatim>\<open>run_test_cases\<close> as \<^verbatim>\<open>mesh.test_cases\<close> returned it (or empty), and any call of
  \<^verbatim>\<open>get_test_cases_subset\<close> is on the primary sequence, with the two lists of the
  command line.
\<close>

theorem additional_never_filtered:
  assumes "main w c ([], \<sigma>) = (res, tr, \<sigma>')"
    and "RunTestCases ps tcs adds r \<in> set tr"
  shows "adds = (if 2 \<le> length ps then snd (mesh_test_cases w ps) else [])
    \<and> (GetTestCasesSubset x inc exc \<in> set tr \<longrightarrow>
         inc = opt_test_cases c \<and> exc = opt_excluded c
         \<and> x = gap_test_cases w (hd ps) @ gatt_test_cases w (hd ps)
               @ sm_test_cases w (hd ps) @ l2cap_test_cases w (hd ps)
               @ (if 2 \<le> length ps then fst (mesh_test_cases w ps) else [])
         \<and> tcs = get_test_cases_subset w x inc exc)"
proof -
  from run_call [OF assms] obtain a ip ips where
    a: "arg_parser w c = Inr a" and ip: "ip_addr a = Some (ip # ips)"
    and r: "RunTestCases ps tcs adds r \<in> set (run_calls w a)"
    and hi: "set tr \<subseteq> set (plan w a)" by blast
  have ps: "ps = map PTS (ip # ips)" using run_calls_run [OF r ip] by simp
  have adds: "adds = (if 2 \<le> length ps then snd (mesh_test_cases w ps) else [])"
    using run_calls_run [OF r ip] by simp
  have "inc = opt_test_cases c \<and> exc = opt_excluded c
         \<and> x = gap_test_cases w (hd ps) @ gatt_test_cases w (hd ps)
               @ sm_test_cases w (hd ps) @ l2cap_test_cases w (hd ps)
               @ (if 2 \<le> length ps then fst (mesh_test_cases w ps) else [])
         \<and> tcs = get_test_cases_subset w x inc exc"
    if "GetTestCasesSubset x inc exc \<in> set tr"
  proof -
    from that hi have p: "GetTestCasesSubset x inc exc \<in> set (plan w a)"
      by (rule_tac subsetD)
    from arg_parser_fields [OF a]
    have f: "test_cases a = opt_test_cases c" "excluded a = opt_excluded c" by simp_all
    from plan_subset [OF p ip]
    have t: "truthy (test_cases a) \<or> truthy (excluded a)"
      and i: "inc = opt_test_cases c" "exc = opt_excluded c"
      and x: "x = gap_test_cases w (hd ps) @ gatt_test_cases w (hd ps)
               @ sm_test_cases w (hd ps) @ l2cap_test_cases w (hd ps)
               @ (if 2 \<le> length ps then fst (mesh_test_cases w ps) else [])"
      by (simp_all only: f ps Let_def)
    from run_calls_run [OF r ip] t
    have "tcs = get_test_cases_subset w x inc exc" by (simp only: Let_def x i f if_True)
    with i x show ?thesis by (intro conjI)
  qed
  with adds show ?thesis by simp
qed

theorem additional_never_filtered_witness:
  "main quiet_world (two_servers\<lparr> opt_test_cases := Some [''GAP''] \<rparr>) ([], ())
     = (Inr 0, calls_two_gap, ())
   \<and> RunTestCases [PTS ''10.0.0.1'', PTS ''10.0.0.2''] [gap1] [mesh2] 0 \<in> set calls_two_gap
   \<and> GetTestCasesSubset [gap1, gatt1, sm1, l2cap1, mesh1] (Some [''GAP'']) None
       \<in> set calls_two_gap
   \<and> [mesh2] = snd (mesh_test_cases (quiet_world :: unit world)
                      [PTS ''10.0.0.1'', PTS ''10.0.0.2''])
   \<and> [gap1] = get_test_cases_subset (quiet_world :: unit world)
                 [gap1, gatt1, sm1, l2cap1, mesh1] (Some [''GAP'']) None"
proof -
  have h1: "main quiet_world (two_servers\<lparr> opt_test_cases := Some [''GAP''] \<rparr>) ([], ())
              = (Inr 0, calls_two_gap, ())"
    by (rule run_two_servers_gap)
  have h2: "RunTestCases [PTS ''10.0.0.1'', PTS ''10.0.0.2''] [gap1] [mesh2] 0
              \<in> set calls_two_gap"
    by (simp add: calls_two_gap_def)
  have h3: "GetTestCasesSubset [gap1, gatt1, sm1, l2cap1, mesh1] (Some [''GAP'']) None
              \<in> set calls_two_gap"
    by (simp add: calls_two_gap_def)
  have c: "[mesh2] = snd (mesh_test_cases (quiet_world :: unit world)
                           [PTS ''10.0.0.1'', PTS ''10.0.0.2''])
     \<and> [gap1] = get_test_cases_subset (quiet_world :: unit world)
                   [gap1, gatt1, sm1, l2cap1, mesh1] (Some [''GAP'']) None"
    using h3 additional_never_filtered [OF h1 h2,
            of "[gap1, gatt1, sm1, l2cap1, mesh1]" "Some [''GAP'']" None]
    by simp
  show ?thesis using h1 h2 h3 c by simp
qed

section \<open>Validation\<close>

text \<open>
  Claim C10. Started with effective UID 0, \<^verbatim>\<open>main\<close> raises \<^verbatim>\<open>SystemExit\<close> with the
  message about root whatever the command line is, well-formed or not, and without a
  single call: the process ends with status 1, nothing parsed, nothing done.
\<close>

theorem root_exits_first:
  assumes "euid w = 0"
  shows "main w c s = (Inl (SystemExit (ExitMsg RunAsRoot)), s)
    \<and> script w c \<sigma> = (1, [], \<sigma>)"
  using assms by (simp add: main_root script_def exit_status_def)

theorem root_exits_first_witness:
  "euid (quiet_world\<lparr> euid := 0 \<rparr> :: unit world) = 0
   \<and> main (quiet_world\<lparr> euid := 0 \<rparr>) (one_server\<lparr> arg_kernel_image := None \<rparr>) ([], ())
       = (Inl (SystemExit (ExitMsg RunAsRoot)), [], ())
   \<and> script (quiet_world\<lparr> euid := 0 \<rparr>) (one_server\<lparr> arg_kernel_image := None \<rparr>) ()
       = (1, [], ())"
proof -
  have h: "euid (quiet_world\<lparr> euid := 0 \<rparr> :: unit world) = 0" by simp
  show ?thesis
    using h root_exits_first [OF h, of "one_server\<lparr> arg_kernel_image := None \<rparr>" "([], ())" "()"]
    by simp
qed

text \<open>
  Claim C4, as the spec states it, at the command line
  \<^verbatim>\<open>zephyr-hci zephyr.elf -i 10.0.0.1 -t ""\<close>: the TTY path is the empty string, which
  is under neither \<^verbatim>\<open>/dev/tty\<close> nor \<^verbatim>\<open>/dev/pts\<close> and does not exist, and yet
  \<^verbatim>\<open>check_args\<close> accepts it (an empty string is false in \<^verbatim>\<open>if tty_file:\<close>, so the
  QEMU branch is taken) and \<^verbatim>\<open>main\<close> goes on to connect to the server.
\<close>

theorem empty_tty_counterexample:
  "opt_tty_file (one_server\<lparr> opt_tty_file := Some [] \<rparr>) = Some []
   \<and> \<not> startswith [] ''/dev/tty'' \<and> \<not> startswith [] ''/dev/pts''
   \<and> \<not> path_exists (quiet_world :: unit world) []
   \<and> InitPts ''10.0.0.1'' ''zephyr-hci'' None False None None
       \<in> set (fst (snd (main (quiet_world :: unit world)
                           (one_server\<lparr> opt_tty_file := Some [] \<rparr>) ([], ()))))"
proof -
  have "\<not> path_exists (quiet_world :: unit world) []"
    by (simp add: quiet_world_def)
  moreover have "InitPts ''10.0.0.1'' ''zephyr-hci'' None False None None
       \<in> set (fst (snd (main (quiet_world :: unit world)
                           (one_server\<lparr> opt_tty_file := Some [] \<rparr>) ([], ()))))"
    by (simp add: run_empty_tty calls_one_def setup_one_def)
  ultimately show ?thesis by (simp add: startswith_def)
qed

text \<open>
  Claim C4, amended. When the parsed arguments have no server IP address, or a non-empty
  TTY path that is not under \<^verbatim>\<open>/dev/tty\<close> or \<^verbatim>\<open>/dev/pts\<close> or does not exist, or no
  TTY path (or an empty one) while the QEMU binary is not found, or a kernel image that
  is not a file, \<^verbatim>\<open>main\<close> raises \<^verbatim>\<open>SystemExit\<close> with a message and has made no call:
  no session was started.
\<close>

theorem validation_fails_fast:
  assumes "arg_parser w c = Inr a"
    and "\<not> truthy (ip_addr a)
       \<or> (\<exists>t. tty_file a = Some t \<and> t \<noteq> []
              \<and> (\<not> startswith t ''/dev/tty'' \<and> \<not> startswith t ''/dev/pts''
                  \<or> \<not> path_exists w t))
       \<or> (\<not> truthy (tty_file a) \<and> \<not> find_executable w (QEMU_BIN w))
       \<or> \<not> path_isfile w (kernel_image a)"
  shows "\<exists>m. main w c s = (Inl (SystemExit (ExitMsg m)), s)"
proof (cases "euid w = 0")
  case True
  then show ?thesis by (simp add: main_root)
next
  case False
  from assms(2) have "\<exists>m. check_args w a = Inl (SystemExit (ExitMsg m))"
    by (auto simp: check_args_def sys_exit_def truthy_def split: option.splits)
  then obtain m where "check_args w a = Inl (SystemExit (ExitMsg m))" by blast
  with assms(1) have "parse_args w c = Inl (SystemExit (ExitMsg m))"
    by (simp add: parse_args_def)
  from main_rejected [OF False this] show ?thesis by blast
qed

theorem validation_fails_fast_witness:
  "arg_parser (quiet_world :: unit world) (one_server\<lparr> opt_tty_file := Some ''/dev/foo'' \<rparr>)
     = Inr \<lparr> ip_addr = Some [''10.0.0.1''], local_addr = None, workspace = ''zephyr-hci'',
             kernel_image = ''zephyr.elf'', tty_file = Some ''/dev/foo'', bd_addr = None,
             enable_max_logs = False, board = None, test_cases = None, excluded = None,
             retry = 0, store = False \<rparr>
   \<and> \<not> startswith ''/dev/foo'' ''/dev/tty'' \<and> \<not> startswith ''/dev/foo'' ''/dev/pts''
   \<and> main (quiet_world :: unit world) (one_server\<lparr> opt_tty_file := Some ''/dev/foo'' \<rparr>) ([], ())
       = (Inl (SystemExit (ExitMsg (NotATty ''/dev/foo''))), [], ())"
proof -
  let ?a = "\<lparr> ip_addr = Some [''10.0.0.1''], local_addr = None, workspace = ''zephyr-hci'',
             kernel_image = ''zephyr.elf'', tty_file = Some ''/dev/foo'', bd_addr = None,
             enable_max_logs = False, board = None, test_cases = None, excluded = None,
             retry = 0, store = False \<rparr>"
  have h1: "arg_parser (quiet_world :: unit world)
              (one_server\<lparr> opt_tty_file := Some ''/dev/foo'' \<rparr>) = Inr ?a"
    by (simp add: arg_parser_def one_server_def quiet_world_def)
  have n: "\<not> startswith ''/dev/foo'' ''/dev/tty'' \<and> \<not> startswith ''/dev/foo'' ''/dev/pts''"
    by (simp add: startswith_def)
  then have h2: "\<not> truthy (ip_addr ?a)
       \<or> (\<exists>t. tty_file ?a = Some t \<and> t \<noteq> []
              \<and> (\<not> startswith t ''/dev/tty'' \<and> \<not> startswith t ''/dev/pts''
                  \<or> \<not> path_exists (quiet_world :: unit world) t))
       \<or> (\<not> truthy (tty_file ?a)
           \<and> \<not> find_executable (quiet_world :: unit world) (QEMU_BIN (quiet_world :: unit world)))
       \<or> \<not> path_isfile (quiet_world :: unit world) (kernel_image ?a)"
    by simp
  have "\<exists>m. main (quiet_world :: unit world) (one_server\<lparr> opt_tty_file := Some ''/dev/foo'' \<rparr>)
               ([], ()) = (Inl (SystemExit (ExitMsg m)), [], ())"
    by (rule validation_fails_fast [OF h1 h2])
  then have c: "main (quiet_world :: unit world) (one_server\<lparr> opt_tty_file := Some ''/dev/foo'' \<rparr>)
               ([], ()) = (Inl (SystemExit (ExitMsg (NotATty ''/dev/foo''))), [], ())"
    by (simp add: run_bad_tty)
  show ?thesis using h1 n c by simp
qed

section \<open>The retry limit\<close>




section \<open>Exit status\<close>

text \<open>
  Claim C5. The exit status of the process is 0 when \<^verbatim>\<open>main\<close> runs to its end (which it
  does whenever the arguments are accepted and no call raises), 14 when
  \<^verbatim>\<open>KeyboardInterrupt\<close> comes out of \<^verbatim>\<open>main\<close>, 16 for any other exception than
  \<^verbatim>\<open>SystemExit\<close>, and the status of the \<^verbatim>\<open>SystemExit\<close> itself otherwise: on root
  privileges or rejected arguments that is 1 (a message) or 2 (usage), never 0 and never
  16, and no call has been made.
\<close>

theorem exit_codes:
  assumes "main w c ([], \<sigma>) = (res, tr, \<sigma>')"
  shows "script w c \<sigma>
      = ((case res of
            Inr n \<Rightarrow> 0
          | Inl KeyboardInterrupt \<Rightarrow> 14
          | Inl (SystemExit x) \<Rightarrow> exit_status x
          | Inl (OtherException m) \<Rightarrow> 16), tr, \<sigma>')
    \<and> ((\<forall>x \<sigma>. fst (perform w x \<sigma>) = None) \<and> euid w \<noteq> 0 \<and> parse_args w c = Inr a
         \<longrightarrow> res = Inr 0)
    \<and> (euid w = 0 \<or> parse_args w c = Inl e
         \<longrightarrow> fst (script w c \<sigma>) \<in> {1, 2} \<and> tr = [])"
proof -
  have 1: "script w c \<sigma>
      = ((case res of
            Inr n \<Rightarrow> 0
          | Inl KeyboardInterrupt \<Rightarrow> 14
          | Inl (SystemExit x) \<Rightarrow> exit_status x
          | Inl (OtherException m) \<Rightarrow> 16), tr, \<sigma>')"
  proof (cases res)
    case (Inl e')
    with assms show ?thesis by (cases e') (simp_all add: script_def)
  next
    case (Inr n)
    have r: "euid w \<noteq> 0"
    proof
      assume "euid w = 0"
      from main_root [OF this, of c "([], \<sigma>)"] assms Inr show False by simp
    qed
    obtain a' where a': "parse_args w c = Inr a'"
      using assms Inr r by (cases "parse_args w c") (auto simp: main_rejected)
    from main_result [OF r a' assms] Inr have "n = 0" by auto
    with assms Inr show ?thesis by (simp add: script_def)
  qed
  have 2: "(\<forall>x \<sigma>. fst (perform w x \<sigma>) = None) \<and> euid w \<noteq> 0 \<and> parse_args w c = Inr a
         \<longrightarrow> res = Inr 0"
  proof
    assume "(\<forall>x \<sigma>. fst (perform w x \<sigma>) = None) \<and> euid w \<noteq> 0 \<and> parse_args w c = Inr a"
    then have q: "\<forall>x \<sigma>. fst (perform w x \<sigma>) = None" and r: "euid w \<noteq> 0"
      and a: "parse_args w c = Inr a" by simp_all
    from main_quiet [OF r a q, of \<sigma>] assms show "res = Inr 0" by auto
  qed
  have 3: "euid w = 0 \<or> parse_args w c = Inl e
         \<longrightarrow> fst (script w c \<sigma>) \<in> {1, 2} \<and> tr = []"
  proof
    assume h: "euid w = 0 \<or> parse_args w c = Inl e"
    have "\<exists>x. res = Inl (SystemExit x) \<and> exit_status x \<in> {1, 2} \<and> tr = [] \<and> \<sigma>' = \<sigma>"
    proof (cases "euid w = 0")
      case True
      with assms have "res = Inl (SystemExit (ExitMsg RunAsRoot))" "tr = []" "\<sigma>' = \<sigma>"
        by (simp_all add: main_root)
      moreover have "exit_status (ExitMsg RunAsRoot) \<in> {1, 2}"
        by (simp add: exit_status_def)
      ultimately show ?thesis by blast
    next
      case False
      with h have e: "parse_args w c = Inl e" by simp
      from parse_args_Inl [OF e] main_rejected [OF False e, of "([], \<sigma>)"] assms
      show ?thesis by (auto simp: exit_status_def)
    qed
    with assms show "fst (script w c \<sigma>) \<in> {1, 2} \<and> tr = []"
      by (auto simp: script_def)
  qed
  show ?thesis by (rule conjI [OF 1 conjI [OF 2 3]])
qed

theorem exit_codes_witness:
  "main quiet_world one_server ([], ()) = (Inr 0, calls_one None 0, ())
   \<and> script quiet_world one_server () = (0, calls_one None 0, ())
   \<and> main interrupted_world one_server ([], empty_sync)
       = (Inl KeyboardInterrupt,
          setup_one None @ [RunTestCases [PTS ''10.0.0.1''] [gap1, gatt1, sm1, l2cap1] [] 0],
          \<lparr> pending = [\<lparr> session = ''10.0.0.1'', response_kind = ''GAP/1'', token = 0 \<rparr>],
            next_token = 1, delivered = [], buffered = [] \<rparr>)
   \<and> fst (script interrupted_world one_server empty_sync) = 14
   \<and> main quiet_world (one_server\<lparr> arg_kernel_image := None \<rparr>) ([], ())
       = (Inl (SystemExit (ExitCode 2)), [], ())
   \<and> script quiet_world (one_server\<lparr> arg_kernel_image := None \<rparr>) () = (2, [], ())"
proof -
  have h1: "main quiet_world one_server ([], ()) = (Inr 0, calls_one None 0, ())"
    by (rule run_one_server)
  have c1: "script quiet_world one_server () = (0, calls_one None 0, ())"
    using exit_codes [OF h1] by simp
  note h2 = run_interrupted
  have c2: "fst (script interrupted_world one_server empty_sync) = 14"
    using exit_codes [OF h2] by simp
  have h3: "main quiet_world (one_server\<lparr> arg_kernel_image := None \<rparr>) ([], ())
              = (Inl (SystemExit (ExitCode 2)), [], ())"
    by (rule run_usage_error)
  have c3: "script quiet_world (one_server\<lparr> arg_kernel_image := None \<rparr>) () = (2, [], ())"
    using exit_codes [OF h3] by (simp add: exit_status_def)
  show ?thesis using h1 c1 h2 c2 h3 c3 by simp
qed

section \<open>One pending response per session and kind\<close>

text \<open>
  Claim C8. In every state the synchronizer reaches from the empty one by registering,
  clearing, delivering and awaiting, no two pending responses have the same session and
  kind. And once \<^verbatim>\<open>registerPending\<close> has succeeded for a session and a kind, then after
  any further operations, as long as none of them clears or awaits the token it gave or
  delivers an event of that session and kind, registering the same pair again fails with
  \<open>AlreadyPending\<close> and changes nothing: the first entry, with its token, is still the
  one and only pending response of the pair.
\<close>

theorem one_pending_per_key:
  "one_per_key (sync_run cap ops)
   \<and> (registerPending sid k (sync_run cap ops) = Inr (t, sy')
      \<and> (\<forall>x \<in> set later. x \<noteq> Clear t \<and> x \<noteq> Await t
                          \<and> (\<forall>payload. x \<noteq> Deliver sid k payload)) \<longrightarrow>
        registerPending sid k (foldl (sync_step cap) sy' later) = Inl (AlreadyPending sid k)
        \<and> sync_step cap (foldl (sync_step cap) sy' later) (Register sid k)
            = foldl (sync_step cap) sy' later
        \<and> filter (awaits sid k) (pending (foldl (sync_step cap) sy' later))
            = [\<lparr> session = sid, response_kind = k, token = t \<rparr>]
        \<and> one_per_key (foldl (sync_step cap) sy' later))"
proof (intro conjI impI)
  show "one_per_key (sync_run cap ops)" by (rule run_keeps_invariant)
next
  let ?e = "\<lparr> session = sid, response_kind = k, token = t \<rparr>"
  let ?sy = "foldl (sync_step cap) sy' later"
  assume "registerPending sid k (sync_run cap ops) = Inr (t, sy')
      \<and> (\<forall>x \<in> set later. x \<noteq> Clear t \<and> x \<noteq> Await t
                          \<and> (\<forall>payload. x \<noteq> Deliver sid k payload))"
  then have h: "registerPending sid k (sync_run cap ops) = Inr (t, sy')"
    and l: "\<forall>x \<in> set later. x \<noteq> Clear (token ?e) \<and> x \<noteq> Await (token ?e)
              \<and> (\<forall>payload. x \<noteq> Deliver (session ?e) (response_kind ?e) payload)"
    by simp_all
  have f: "tokens_fresh sy'"
    by (rule register_keeps_tokens [OF run_keeps_tokens h])
  have i: "one_per_key sy'"
    by (rule register_keeps_invariant [OF run_keeps_invariant h])
  from register_appends [OF h] have "?e \<in> set (pending sy')" by simp
  from steps_keep_entry [OF f this l] have e: "?e \<in> set (pending ?sy)" .
  from pending_refuses [OF e]
  show r: "registerPending sid k ?sy = Inl (AlreadyPending sid k)" by simp
  then show "sync_step cap ?sy (Register sid k) = ?sy" by simp
  show o: "one_per_key ?sy" by (rule steps_keep_invariant [OF i])
  from only_one_awaits [OF o [unfolded one_per_key_def] e]
  show "filter (awaits sid k) (pending ?sy) = [?e]" by simp
qed

theorem one_pending_per_key_witness:
  "registerPending ''10.0.0.1'' ''GAP/1'' (sync_run 4 [])
     = Inr (0, \<lparr> pending = [\<lparr> session = ''10.0.0.1'', response_kind = ''GAP/1'', token = 0 \<rparr>],
                 next_token = 1, delivered = [], buffered = [] \<rparr>)
   \<and> registerPending ''10.0.0.1'' ''GAP/1''
        (foldl (sync_step 4)
           \<lparr> pending = [\<lparr> session = ''10.0.0.1'', response_kind = ''GAP/1'', token = 0 \<rparr>],
             next_token = 1, delivered = [], buffered = [] \<rparr>
           [Register ''10.0.0.1'' ''SM/1'', Deliver ''10.0.0.1'' ''SM/1'' ''ok'',
            Register ''10.0.0.1'' ''GAP/1'', Clear 1])
     = Inl (AlreadyPending ''10.0.0.1'' ''GAP/1'')"
proof -
  let ?sy = "\<lparr> pending = [\<lparr> session = ''10.0.0.1'', response_kind = ''GAP/1'', token = 0 \<rparr>],
               next_token = 1, delivered = [], buffered = [] \<rparr>"
  let ?later = "[Register ''10.0.0.1'' ''SM/1'', Deliver ''10.0.0.1'' ''SM/1'' ''ok'',
                 Register ''10.0.0.1'' ''GAP/1'', Clear 1]"
  have h1: "registerPending ''10.0.0.1'' ''GAP/1'' (sync_run 4 []) = Inr (0, ?sy)"
    by (simp add: sync_run_def empty_sync_def registerPending_def)
  have h2: "\<forall>x \<in> set ?later. x \<noteq> Clear 0 \<and> x \<noteq> Await 0
              \<and> (\<forall>payload. x \<noteq> Deliver ''10.0.0.1'' ''GAP/1'' payload)"
    by simp
  note t = one_pending_per_key [of 4 "[]" "''10.0.0.1''" "''GAP/1''" 0 ?sy ?later]
  have c: "registerPending ''10.0.0.1'' ''GAP/1'' (foldl (sync_step 4) ?sy ?later)
             = Inl (AlreadyPending ''10.0.0.1'' ''GAP/1'')"
    by (rule conjunct1 [OF mp [OF conjunct2 [OF t] conjI [OF h1 h2]]])
  show ?thesis by (rule conjI [OF h1 c])
qed

end
